theory Spec2Isabelle
  imports Complex_Main "HOL-Library.Word" "HOL-Library.Sublist"
begin

section \<open>Strings and numbers of the host language\<close>

text \<open>
  A string of the program is modelled as a \<^typ>\<open>string\<close>: a list of code units below 256.
  \<open>length\<close> is the source's \<open>.length\<close>, \<open>of_char\<close> its \<open>charCodeAt\<close>.
\<close>

text \<open>\<open>Array.prototype.join\<close>: the elements, with the separator between neighbours.\<close>

fun join :: "string \<Rightarrow> string list \<Rightarrow> string" where
  "join sep [] = []"
| "join sep [x] = x"
| "join sep (x # y # ys) = x @ sep @ join sep (y # ys)"

text \<open>The white space that \<open>String.prototype.trim\<close> removes, among the code units below 256:
  tab, line feed, vertical tab, form feed, carriage return, space and no-break space.\<close>

definition isWhiteSpace :: "char \<Rightarrow> bool" where
  "isWhiteSpace ch \<longleftrightarrow> (of_char ch :: nat) \<in> {9, 10, 11, 12, 13, 32, 160}"

definition trim :: "string \<Rightarrow> string" where
  "trim str = rev (dropWhile isWhiteSpace (rev (dropWhile isWhiteSpace str)))"

text \<open>Decimal rendering of a number inside a template literal.\<close>

definition digitChar :: "nat \<Rightarrow> char" where
  "digitChar d = char_of (48 + d)"

function showNat :: "nat \<Rightarrow> string" where
  "showNat n = (if n < 10 then [digitChar n] else showNat (n div 10) @ [digitChar (n mod 10)])"
  by pat_completeness auto
termination
  by (relation "measure (\<lambda>n. n)") auto

declare showNat.simps [simp del]

definition showInt :: "int \<Rightarrow> string" where
  "showInt i = (if i < 0 then CHR ''-'' # showNat (nat (- i)) else showNat (nat i))"

section \<open>Data model (schema.ts)\<close>

record DocMetadata =
  filename :: string
  path :: string
  title :: "string option"
  tags :: "string list option"
  relevanceScore :: "rat option"

record RelevantContent =
  "file" :: string
  content :: string

section \<open>The outside world\<close>

datatype error = OracleError | SyntaxError | TypeError | ReadError

text \<open>A value produced by \<open>JSON.parse\<close>; an object is the list of its properties, each name
  once.\<close>

datatype json =
    JNull
  | JBool bool
  | JNumber rat
  | JString string
  | JArray "json list"
  | JObject "(string \<times> json) list"

text \<open>
  What the services reach outside the repository, taken as parameters:
  \<^item> \<open>generateText w k prompt\<close> is the outcome of the call of the text generator that
    follows \<open>k\<close> earlier calls: \<open>Inr text\<close>, or \<open>Inl e\<close> when the call throws. The
    answer may differ from call to call.
  \<^item> \<open>JSON_parse\<close> is \<open>JSON.parse\<close>: a value, or \<open>Inl SyntaxError\<close>.
  \<^item> \<open>readFileContent\<close> is file-system.ts's reader: the text of a file, or an error.
  \<^item> \<open>replaceFrontmatter\<close> is \<open>content.replace(/^---\s*\n[\s\S]*?\n---\s*\n/, '')\<close>.
\<close>

record world =
  generateText :: "nat \<Rightarrow> string \<Rightarrow> error + string"
  JSON_parse :: "string \<Rightarrow> error + json"
  readFileContent :: "string \<Rightarrow> error + string"
  replaceFrontmatter :: "string \<Rightarrow> string"

text \<open>
  The state of a \<open>FilterService\<close>: its \<open>taskCache\<close>, and the prompts sent to the text
  generator so far, oldest first (a call counter that also remembers what was asked).
\<close>

record FilterService =
  taskCache :: "string \<rightharpoonup> string"
  oracleLog :: "string list"

text \<open>
  An \<open>async\<close> method of the service runs up to its \<open>await generateText(...)\<close> and is
  resumed with the outcome of that call, in the state the service has by then.
\<close>

datatype 'a suspended =
    Returned 'a
  | Awaiting string "error + string \<Rightarrow> FilterService \<Rightarrow> 'a \<times> FilterService"

text \<open>Awaiting a method with nothing else running in between.\<close>

definition awaited :: "world \<Rightarrow> 'a suspended \<Rightarrow> FilterService \<Rightarrow> 'a \<times> FilterService" where
  "awaited w m s =
     (case m of
        Returned v \<Rightarrow> (v, s)
      | Awaiting prompt k \<Rightarrow>
          k (generateText w (length (oracleLog s)) prompt) (s\<lparr>oracleLog := oracleLog s @ [prompt]\<rparr>))"

section \<open>FilterService (tool/filter-service.ts)\<close>

subsection \<open>filterRelevantFiles\<close>

text \<open>\<open>{...file, relevanceScore: 1.0}\<close>\<close>

definition stamp :: "DocMetadata \<Rightarrow> DocMetadata" where
  "stamp f = f\<lparr>relevanceScore := Some 1\<rparr>"

text \<open>One line of the prompt; \<open>file.title\<close> is truthy when present and not empty, \<open>file.tags\<close>
  when present.\<close>

definition fileInfo :: "DocMetadata \<Rightarrow> nat \<Rightarrow> string" where
  "fileInfo f index =
     (let tagsStr = (case tags f of Some ts \<Rightarrow> ''tags: ['' @ join '', '' ts @ '']'' | None \<Rightarrow> [])
      in ''File '' @ showNat (index + 1) @ '': '' @ filename f @ '' ''
         @ (case title f of Some t \<Rightarrow> (if t = [] then [] else ''- '' @ t) | None \<Rightarrow> [])
         @ '' '' @ tagsStr)"

fun fileInfosFrom :: "nat \<Rightarrow> DocMetadata list \<Rightarrow> string list" where
  "fileInfosFrom index [] = []"
| "fileInfosFrom index (f # fs) = fileInfo f index # fileInfosFrom (Suc index) fs"

definition filesPrompt :: "DocMetadata list \<Rightarrow> string \<Rightarrow> string" where
  "filesPrompt files task =
     ''Task: '' @ task @ ''\<newline>Files:\<newline>'' @ join ''\<newline>'' (fileInfosFrom 0 files)
     @ ''\<newline>\<newline>KEEP files that contain relevant information, including:\<newline>''
     @ ''- Files that directly relate to the task\<newline>''
     @ ''- Files with general rules or guidelines that apply broadly\<newline>''
     @ ''- Files that contain architectural principles or coding standards\<newline>''
     @ ''- Files that might provide context for the task\<newline>\<newline>''
     @ ''Exclude files that are not relevant to the task.\<newline>\<newline>''
     @ ''Return a JSON array with objects containing:\<newline>''
     @ ''1. fileIndex (1-based index)\<newline>''
     @ ''2. include (boolean)\<newline>''
     @ ''3. reasoning (brief)''"

text \<open>\<open>text.match(/\[.*\]/s)\<close>: from the first opening bracket to the last closing bracket
  after it; no match when there is none.\<close>

definition matchJsonArray :: "string \<Rightarrow> string option" where
  "matchJsonArray txt =
     (let rest = dropWhile (\<lambda>ch. ch \<noteq> CHR ''['') txt
      in if rest = [] then None
         else let body = rev (dropWhile (\<lambda>ch. ch \<noteq> CHR '']'') (rev (tl rest)))
              in if body = [] then None else Some (CHR ''['' # body))"

text \<open>Reading the property \<open>fileIndex\<close> or \<open>include\<close> of a parsed value: a TypeError on
  \<open>null\<close>, \<open>undefined\<close> (here \<open>None\<close>) on a value that has no such property.\<close>

fun getProp :: "json \<Rightarrow> string \<Rightarrow> error + json option" where
  "getProp JNull key = Inl TypeError"
| "getProp (JObject props) key = Inr (map_of props key)"
| "getProp v key = Inr None"

text \<open>\<open>filterData.find((item) => item.fileIndex === index + 1)\<close>, with \<open>k = index + 1\<close>.\<close>

fun findVerdict :: "json list \<Rightarrow> nat \<Rightarrow> error + json option" where
  "findVerdict [] k = Inr None"
| "findVerdict (item # items) k =
     (case getProp item ''fileIndex'' of
        Inl e \<Rightarrow> Inl e
      | Inr v \<Rightarrow> if v = Some (JNumber (of_nat k)) then Inr (Some item) else findVerdict items k)"

text \<open>The callback of \<open>files.filter\<close>: \<open>!fileData || fileData.include !== false\<close>.\<close>

definition keepFile :: "json list \<Rightarrow> nat \<Rightarrow> error + bool" where
  "keepFile filterData index =
     (case findVerdict filterData (index + 1) of
        Inl e \<Rightarrow> Inl e
      | Inr None \<Rightarrow> Inr True
      | Inr (Some fileData) \<Rightarrow>
          (case getProp fileData ''include'' of
             Inl e \<Rightarrow> Inl e
           | Inr v \<Rightarrow> Inr (v \<noteq> Some (JBool False))))"

fun filterFrom :: "json list \<Rightarrow> nat \<Rightarrow> DocMetadata list \<Rightarrow> error + DocMetadata list" where
  "filterFrom filterData index [] = Inr []"
| "filterFrom filterData index (f # fs) =
     (case keepFile filterData index of
        Inl e \<Rightarrow> Inl e
      | Inr keep \<Rightarrow>
          (case filterFrom filterData (Suc index) fs of
             Inl e \<Rightarrow> Inl e
           | Inr kept \<Rightarrow> Inr (if keep then f # kept else kept)))"

text \<open>The body of the \<open>try\<close> once the text has arrived; \<open>Inl\<close> is a throw.\<close>

definition applyVerdicts :: "world \<Rightarrow> DocMetadata list \<Rightarrow> string \<Rightarrow> error + DocMetadata list" where
  "applyVerdicts w files txt =
     (case matchJsonArray txt of
        None \<Rightarrow> Inr files
      | Some jsonText \<Rightarrow>
          (case JSON_parse w jsonText of
             Inl e \<Rightarrow> Inl e
           | Inr (JArray filterData) \<Rightarrow>
               (case filterFrom filterData 0 files of
                  Inl e \<Rightarrow> Inl e
                | Inr kept \<Rightarrow> Inr (map stamp kept))
           | Inr _ \<Rightarrow> Inl TypeError))"

definition filterRelevantFiles :: "world \<Rightarrow> DocMetadata list \<Rightarrow> string \<Rightarrow> DocMetadata list suspended" where
  "filterRelevantFiles w files task =
     (if length files = 0 then Returned []
      else if length files \<le> 3 then Returned (map stamp files)
      else Awaiting (filesPrompt files task)
             (\<lambda>outcome s.
                (case outcome of
                   Inl e \<Rightarrow> files
                 | Inr txt \<Rightarrow> (case applyVerdicts w files txt of Inl e \<Rightarrow> files | Inr res \<Rightarrow> res),
                 s)))"

subsection \<open>filterRelevantContent\<close>

text \<open>\<open>simpleHash\<close>: \<open>hash = ((hash << 5) - hash) + str.charCodeAt(i); hash |= 0\<close> keeps
  \<open>hash\<close> a 32-bit integer, read as signed when the loop is over.\<close>

fun simpleHashLoop :: "32 word \<Rightarrow> string \<Rightarrow> 32 word" where
  "simpleHashLoop hash [] = hash"
| "simpleHashLoop hash (ch # str) =
     simpleHashLoop ((push_bit 5 hash - hash) + of_nat (of_char ch)) str"

definition simpleHash :: "string \<Rightarrow> int" where
  "simpleHash str = sint (simpleHashLoop 0 str)"

definition createCacheKey :: "string \<Rightarrow> string \<Rightarrow> string" where
  "createCacheKey contentStr task =
     showInt (simpleHash contentStr) @ '':'' @ showInt (simpleHash task)"

definition contentPrompt :: "string \<Rightarrow> string \<Rightarrow> string" where
  "contentPrompt contentStr task =
     ''Task: '' @ task @ ''\<newline>\<newline>Doc content:\<newline>```\<newline>'' @ contentStr
     @ ''\<newline>```\<newline>\<newline>Process this doc by:\<newline>''
     @ ''1. KEEP most content by default\<newline>''
     @ ''2. KEEP ALL code examples, structures, config samples\<newline>''
     @ ''3. KEEP all principles, guidelines, standards\<newline>''
     @ ''4. KEEP architectural information\<newline>''
     @ ''5. ONLY remove CLEARLY IRRELEVANT sections\<newline>''
     @ ''6. Maintain original formatting and structure\<newline>\<newline>''
     @ ''If uncertain about relevance, keep it.\<newline>''
     @ ''Do not comment on why something was included or excluded.\<newline>\<newline>''
     @ ''Your format should be raw markdown as-is without any additional text or formatting.\<newline>''
     @ ''Do not wrap the content in triple backtick fenced code blocks.\<newline>''
     @ ''If nothing is relevant, return an empty string.''"

definition filterRelevantContent :: "string \<Rightarrow> string \<Rightarrow> FilterService \<Rightarrow> string suspended" where
  "filterRelevantContent contentStr task s =
     (if contentStr = [] \<or> trim contentStr = [] then Returned []
      else let cacheKey = createCacheKey contentStr task
           in (case taskCache s cacheKey of
                 Some cached \<Rightarrow> Returned cached
               | None \<Rightarrow>
                   if length contentStr < 500 then Returned contentStr
                   else Awaiting (contentPrompt contentStr task)
                          (\<lambda>outcome s'.
                             (case outcome of
                                Inr txt \<Rightarrow> (txt, s'\<lparr>taskCache := (taskCache s')(cacheKey \<mapsto> txt)\<rparr>)
                              | Inl e \<Rightarrow> (contentStr, s')))))"

section \<open>Formatter\<close>

text \<open>The template literal of one section: \<open>`## ${item.file}\n\n${item.content}\n\n`\<close>.\<close>

definition renderItem :: "RelevantContent \<Rightarrow> string" where
  "renderItem item = ''## '' @ file item @ ''\<newline>\<newline>'' @ content item @ ''\<newline>\<newline>''"

text \<open>\<open>FormatterService.formatOutput\<close> (formatter.ts).\<close>

definition FormatterService_formatOutput :: "RelevantContent list \<Rightarrow> string" where
  "FormatterService_formatOutput contents =
     (if length contents = 0 then ''No relevant documentation found for this task.''
      else join ''---\<newline>\<newline>'' (map renderItem contents))"

text \<open>\<open>CodeRulesService.formatOutput\<close> (tools/code-rules/service.ts): the private copy of the
  earlier single-class service, which maps and joins with no test for the empty list.\<close>

definition CodeRulesService_formatOutput :: "RelevantContent list \<Rightarrow> string" where
  "CodeRulesService_formatOutput contents = join ''---\<newline>\<newline>'' (map renderItem contents)"

section \<open>FileService (tool/file-service.ts)\<close>

text \<open>\<open>getFileContent\<close>: the file without its frontmatter, or the error text of the \<open>catch\<close>.\<close>

definition getFileContent :: "world \<Rightarrow> string \<Rightarrow> string" where
  "getFileContent w filePath =
     (case readFileContent w filePath of
        Inr contentStr \<Rightarrow> replaceFrontmatter w contentStr
      | Inl e \<Rightarrow> ''Error: Could not read '' @ filePath)"

section \<open>The per-file units of CodeRulesHandler.processRequest\<close>

text \<open>
  \<open>relevantFiles.map(file => limit(async () => {...}))\<close> makes one unit of work per file, each
  holding its own \<open>file\<close>; \<open>Promise.all\<close> waits for all of them. A unit is suspended at
  its two \<open>await\<close>s. It is
  \<^item> \<open>Queued\<close> until \<open>limit\<close> starts it,
  \<^item> \<open>Reading\<close> while \<open>getFileContent\<close> is awaited,
  \<^item> \<open>Filtering outcome k\<close> while the text generator is awaited inside
    \<open>filterRelevantContent\<close>: \<open>outcome\<close> is what the call will give, \<open>k\<close> the rest of the method,
  \<^item> \<open>Finished r\<close> once it has returned \<open>r\<close>.
\<close>

datatype unit_state =
    Queued
  | Reading
  | Filtering "error + string" "error + string \<Rightarrow> FilterService \<Rightarrow> string \<times> FilterService"
  | Finished RelevantContent

text \<open>How far a unit has come.\<close>

fun stage :: "unit_state \<Rightarrow> nat" where
  "stage Queued = 0"
| "stage Reading = 1"
| "stage (Filtering outcome k) = 2"
| "stage (Finished r) = 3"

type_synonym pipeline = "FilterService \<times> (DocMetadata \<times> unit_state) list"

text \<open>
  \<open>advance w task i\<close> lets unit \<open>i\<close> run from the \<open>await\<close> it is suspended at to its next one
  (or to its \<open>return\<close>): the body of the thunk given to \<open>limit\<close>. The event loop runs one
  unit at a time, so this is one step of the pipeline. A unit that has finished, or an index
  with no unit, changes nothing.
\<close>

definition advance :: "world \<Rightarrow> string \<Rightarrow> nat \<Rightarrow> pipeline \<Rightarrow> pipeline" where
  "advance w task i p =
     (case p of (s, us) \<Rightarrow>
        if length us \<le> i then (s, us)
        else (case us ! i of
                (f, Queued) \<Rightarrow> (s, us[i := (f, Reading)])
              | (f, Reading) \<Rightarrow>
                  (let rawContent = getFileContent w (path f)
                   in (case filterRelevantContent rawContent task s of
                         Returned filteredContent \<Rightarrow>
                           (s, us[i := (f, Finished \<lparr>file = filename f, content = filteredContent\<rparr>)])
                       | Awaiting prompt k \<Rightarrow>
                           (s\<lparr>oracleLog := oracleLog s @ [prompt]\<rparr>,
                            us[i := (f, Filtering (generateText w (length (oracleLog s)) prompt) k)])))
              | (f, Filtering outcome k) \<Rightarrow>
                  (case k outcome s of
                     (filteredContent, s') \<Rightarrow>
                       (s', us[i := (f, Finished \<lparr>file = filename f, content = filteredContent\<rparr>)]))
              | (f, Finished r) \<Rightarrow> (s, us)))"

text \<open>A unit is in flight from the moment \<open>limit\<close> has started it until it has returned.\<close>

fun running :: "unit_state \<Rightarrow> bool" where
  "running Queued = False"
| "running Reading = True"
| "running (Filtering outcome k) = True"
| "running (Finished r) = False"

definition inFlight :: "(DocMetadata \<times> unit_state) list \<Rightarrow> nat" where
  "inFlight us = length (filter (\<lambda>u. running (snd u)) us)"

text \<open>
  Modelled from the spec: \<open>pLimit(K)\<close> of the package \<open>p-limit\<close>, whose code is not in the
  repository. The specification's contract for it is to "execute all N operations with at
  most K (fixed, e.g. 4) operations in flight concurrently": the limiter starts a queued unit
  only while fewer than \<open>K\<close> units are in flight, and never holds back a unit it has started.
\<close>

definition limitAdmits :: "nat \<Rightarrow> (DocMetadata \<times> unit_state) list \<Rightarrow> nat \<Rightarrow> bool" where
  "limitAdmits K us i =
     (if i < length us \<and> stage (snd (us ! i)) = 0 then inFlight us < K else True)"

text \<open>
  One step of the pipeline of \<open>processRequest\<close>, where \<open>limit = pLimit(4)\<close> and every unit is
  wrapped in \<open>limit(...)\<close>: the event loop resumes unit \<open>i\<close>, unless unit \<open>i\<close> is queued and
  the limiter does not start it now.
\<close>

definition resume :: "world \<Rightarrow> string \<Rightarrow> nat \<Rightarrow> pipeline \<Rightarrow> pipeline" where
  "resume w task i p = (if limitAdmits 4 (snd p) i then advance w task i p else p)"

text \<open>\<open>Promise.all\<close>: the values of the units, each at the position of its promise, once every
  unit has finished; \<open>None\<close> while one is still pending.\<close>

fun promiseAll :: "(DocMetadata \<times> unit_state) list \<Rightarrow> RelevantContent list option" where
  "promiseAll [] = Some []"
| "promiseAll ((f, Finished r) # us) = map_option ((#) r) (promiseAll us)"
| "promiseAll (u # us) = None"

text \<open>\<open>relevantFiles.map(file => limit(async () => {...}))\<close>: one queued unit per file.\<close>

definition initialUnits :: "DocMetadata list \<Rightarrow> (DocMetadata \<times> unit_state) list" where
  "initialUnits relevantFiles = map (\<lambda>f. (f, Queued)) relevantFiles"

text \<open>The units of \<open>relevantFiles\<close>, resumed by the event loop in the order \<open>schedule\<close>, and what
  \<open>await Promise.all(relevantContentPromises)\<close> then holds.\<close>

definition processFiles ::
  "world \<Rightarrow> string \<Rightarrow> DocMetadata list \<Rightarrow> nat list \<Rightarrow> FilterService
     \<Rightarrow> RelevantContent list option \<times> FilterService" where
  "processFiles w task relevantFiles schedule s =
     (case fold (resume w task) schedule (s, initialUnits relevantFiles) of
        (s', us) \<Rightarrow> (promiseAll us, s'))"

section \<open>Notions of the specification\<close>

text \<open>Two records that differ at most in \<open>relevanceScore\<close>.\<close>

definition sameButScore :: "DocMetadata \<Rightarrow> DocMetadata \<Rightarrow> bool" where
  "sameButScore r f \<longleftrightarrow>
     filename r = filename f \<and> path r = path f \<and> title r = title f \<and> tags r = tags f"

text \<open>The answer of the text generator holds no verdict list: the call threw, the text has no
  bracketed part, or the bracketed part is not JSON.\<close>

definition noVerdictList :: "world \<Rightarrow> error + string \<Rightarrow> bool" where
  "noVerdictList w outcome =
     (case outcome of
        Inl e \<Rightarrow> True
      | Inr txt \<Rightarrow> (case matchJsonArray txt of None \<Rightarrow> True | Some jsonText \<Rightarrow> isl (JSON_parse w jsonText)))"

text \<open>A field of a verdict; a value that is not an object has none.\<close>

definition verdictField :: "json \<Rightarrow> string \<Rightarrow> json option" where
  "verdictField v key = (case v of JObject props \<Rightarrow> map_of props key | _ \<Rightarrow> None)"

definition isVerdictFor :: "nat \<Rightarrow> json \<Rightarrow> bool" where
  "isVerdictFor i v \<longleftrightarrow> verdictField v ''fileIndex'' = Some (JNumber (of_nat (i + 1)))"

text \<open>Some verdict for position \<open>i\<close> has \<open>include\<close> exactly \<open>false\<close>.\<close>

definition someVerdictExcludes :: "json list \<Rightarrow> nat \<Rightarrow> bool" where
  "someVerdictExcludes verdicts i \<longleftrightarrow>
     list_ex (\<lambda>v. isVerdictFor i v \<and> verdictField v ''include'' = Some (JBool False)) verdicts"

text \<open>The first verdict for position \<open>i\<close> has \<open>include\<close> exactly \<open>false\<close>.\<close>

definition firstVerdictExcludes :: "json list \<Rightarrow> nat \<Rightarrow> bool" where
  "firstVerdictExcludes verdicts i \<longleftrightarrow>
     (case List.find (isVerdictFor i) verdicts of
        None \<Rightarrow> False
      | Some v \<Rightarrow> verdictField v ''include'' = Some (JBool False))"

text \<open>Two calls of \<open>filterRelevantContent\<close> in succession with the same arguments: both
  results and the final state.\<close>

definition filterTwice ::
  "world \<Rightarrow> string \<Rightarrow> string \<Rightarrow> FilterService \<Rightarrow> string \<times> string \<times> FilterService" where
  "filterTwice w contentStr task s =
     (case awaited w (filterRelevantContent contentStr task s) s of
        (r1, s1) \<Rightarrow>
          (case awaited w (filterRelevantContent contentStr task s1) s1 of
             (r2, s2) \<Rightarrow> (r1, r2, s2)))"

text \<open>The call reaches the text generator and the text generator throws.\<close>

definition oracleCallFails :: "world \<Rightarrow> string \<Rightarrow> string \<Rightarrow> FilterService \<Rightarrow> bool" where
  "oracleCallFails w contentStr task s =
     (case filterRelevantContent contentStr task s of
        Returned v \<Rightarrow> False
      | Awaiting prompt k \<Rightarrow> isl (generateText w (length (oracleLog s)) prompt))"

text \<open>\<open>r\<close> is \<open>f\<close> with \<open>relevanceScore = 1.0\<close>: the score is 1.0 whatever it was, every other
  field is the one of \<open>f\<close>.\<close>

definition stampedCopy :: "DocMetadata \<Rightarrow> DocMetadata \<Rightarrow> bool" where
  "stampedCopy r f \<longleftrightarrow> sameButScore r f \<and> relevanceScore r = Some 1"

text \<open>A \<open>null\<close> entry stands before the first verdict for position \<open>i\<close> (anywhere, when there
  is no verdict for \<open>i\<close>): the lookup for \<open>i\<close> reads \<open>null.fileIndex\<close>.\<close>

definition nullBeforeVerdict :: "json list \<Rightarrow> nat \<Rightarrow> bool" where
  "nullBeforeVerdict verdicts i \<longleftrightarrow>
     JNull \<in> set (takeWhile (\<lambda>v. \<not> isVerdictFor i v) verdicts)"

text \<open>The lookup of some position below \<open>n\<close> reads a \<open>null\<close> entry.\<close>

definition lookupThrows :: "json list \<Rightarrow> nat \<Rightarrow> bool" where
  "lookupThrows verdicts n \<longleftrightarrow> list_ex (nullBeforeVerdict verdicts) [0..<n]"

text \<open>The pipeline after the steps \<open>pre\<close>.\<close>

definition pipelineAfter ::
  "world \<Rightarrow> string \<Rightarrow> DocMetadata list \<Rightarrow> FilterService \<Rightarrow> nat list \<Rightarrow> pipeline" where
  "pipelineAfter w task relevantFiles s pre =
     fold (resume w task) pre (s, initialUnits relevantFiles)"

text \<open>What \<open>filterRelevantContent\<close> returns for the content of file \<open>f\<close> and the task when it
  is called in state \<open>st\<close> of the service.\<close>

definition outputOf :: "world \<Rightarrow> string \<Rightarrow> DocMetadata \<Rightarrow> FilterService \<Rightarrow> string" where
  "outputOf w task f st =
     fst (awaited w (filterRelevantContent (getFileContent w (path f)) task st) st)"

text \<open>
  \<open>c\<close> is the filtered content of the \<open>i\<close>-th file in the run along \<open>schedule\<close>: the schedule
  has a step of unit \<open>i\<close> before which the unit is reading its file, and \<open>c\<close> is what
  \<open>filterRelevantContent\<close> returns for the content of that file, called in the state the
  service has at that step. (A unit is reading before one step only: the step takes it on.)
\<close>

definition filteredContentOf ::
  "world \<Rightarrow> string \<Rightarrow> DocMetadata list \<Rightarrow> FilterService \<Rightarrow> nat list \<Rightarrow> nat \<Rightarrow> string \<Rightarrow> bool" where
  "filteredContentOf w task relevantFiles s schedule i c \<longleftrightarrow>
     (\<exists>pre post.
        schedule = pre @ i # post
      \<and> snd (snd (pipelineAfter w task relevantFiles s pre) ! i) = Reading
      \<and> c = outputOf w task (relevantFiles ! i) (fst (pipelineAfter w task relevantFiles s pre)))"


section \<open>Example inputs\<close>

definition mkDoc :: "string \<Rightarrow> DocMetadata" where
  "mkDoc name = \<lparr>filename = name, path = ''/docs/'' @ name, title = None, tags = None,
                 relevanceScore = None\<rparr>"

definition fourDocs :: "DocMetadata list" where
  "fourDocs = [mkDoc ''a.md'', mkDoc ''b.md'', mkDoc ''c.md'', mkDoc ''d.md'']"

text \<open>A service as \<open>new FilterService()\<close> leaves it.\<close>

definition newFilterService :: FilterService where
  "newFilterService = \<lparr>taskCache = Map.empty, oracleLog = []\<rparr>"

text \<open>A world whose text generator always throws and whose files cannot be read.\<close>

definition failingWorld :: world where
  "failingWorld = \<lparr>generateText = (\<lambda>k prompt. Inl OracleError),
                    JSON_parse = (\<lambda>jsonText. Inl SyntaxError),
                    readFileContent = (\<lambda>filePath. Inl ReadError),
                    replaceFrontmatter = (\<lambda>contentStr. contentStr)\<rparr>"

text \<open>A world whose text generator answers in prose, with no list.\<close>

definition proseWorld :: world where
  "proseWorld = failingWorld\<lparr>generateText := (\<lambda>k prompt. Inr ''All of these look relevant.'')\<rparr>"

text \<open>A world whose text generator gives two verdicts for the first file, the second one
  excluding it.\<close>

definition twoVerdictsText :: string where
  \<open>twoVerdictsText =
     ''[{"fileIndex":1,"include":true,"reasoning":"rules"},{"fileIndex":1,"include":false,"reasoning":"none"}]''\<close>

definition twoVerdicts :: "json list" where
  "twoVerdicts =
     [JObject [(''fileIndex'', JNumber 1), (''include'', JBool True), (''reasoning'', JString ''rules'')],
      JObject [(''fileIndex'', JNumber 1), (''include'', JBool False), (''reasoning'', JString ''none'')]]"

definition twoVerdictsWorld :: world where
  "twoVerdictsWorld =
     failingWorld\<lparr>generateText := (\<lambda>k prompt. Inr twoVerdictsText),
                  JSON_parse := (\<lambda>jsonText. if jsonText = twoVerdictsText then Inr (JArray twoVerdicts)
                                           else Inl SyntaxError)\<rparr>"

text \<open>A world whose text generator gives a verdict excluding the first file and then \<open>null\<close>.\<close>

definition nullVerdictText :: string where
  \<open>nullVerdictText = ''[{"fileIndex":1,"include":false,"reasoning":"none"},null]''\<close>

definition nullVerdict :: "json list" where
  "nullVerdict =
     [JObject [(''fileIndex'', JNumber 1), (''include'', JBool False), (''reasoning'', JString ''none'')],
      JNull]"

definition nullVerdictWorld :: world where
  "nullVerdictWorld =
     failingWorld\<lparr>generateText := (\<lambda>k prompt. Inr nullVerdictText),
                  JSON_parse := (\<lambda>jsonText. if jsonText = nullVerdictText then Inr (JArray nullVerdict)
                                           else Inl SyntaxError)\<rparr>"

text \<open>A world whose text generator wraps one verdict, excluding the third file, in a fence.\<close>

definition oneVerdictJson :: string where
  \<open>oneVerdictJson = ''[{"fileIndex":3,"include":false,"reasoning":"unrelated"}]''\<close>

definition oneVerdictText :: string where
  "oneVerdictText = ''```json '' @ oneVerdictJson @ '' ```''"

definition oneVerdict :: "json list" where
  "oneVerdict =
     [JObject [(''fileIndex'', JNumber 3), (''include'', JBool False), (''reasoning'', JString ''unrelated'')]]"

definition oneVerdictWorld :: world where
  "oneVerdictWorld =
     failingWorld\<lparr>generateText := (\<lambda>k prompt. Inr oneVerdictText),
                  JSON_parse := (\<lambda>jsonText. if jsonText = oneVerdictJson then Inr (JArray oneVerdict)
                                           else Inl SyntaxError)\<rparr>"

text \<open>A world whose text generator always answers with the same short text.\<close>

definition pruningWorld :: world where
  "pruningWorld = failingWorld\<lparr>generateText := (\<lambda>k prompt. Inr ''# Rules'')\<rparr>"

text \<open>A text of 500 characters.\<close>

definition longContent :: string where
  "longContent = replicate 500 CHR ''a''"

text \<open>A world with a long file and a short one, and the text generator of \<open>pruningWorld\<close>.\<close>

definition twoFilesWorld :: world where
  "twoFilesWorld =
     pruningWorld\<lparr>readFileContent := (\<lambda>filePath.
        if filePath = ''/docs/a.md'' then Inr longContent
        else if filePath = ''/docs/b.md'' then Inr ''Log errors.''
        else Inl ReadError)\<rparr>"

definition fiveDocs :: "DocMetadata list" where
  "fiveDocs = [mkDoc ''a.md'', mkDoc ''b.md'', mkDoc ''c.md'', mkDoc ''d.md'', mkDoc ''e.md'']"

section \<open>Lemmas about the host-language helpers\<close>

lemma join_Cons: "join sep (x # xs) = x @ concat (map (\<lambda>y. sep @ y) xs)"
  by (induction xs arbitrary: x) simp_all

lemma dropWhile_Nil_iff: "dropWhile P xs = [] \<longleftrightarrow> (\<forall>x\<in>set xs. P x)"
  by (induction xs) auto

lemma all_dropWhile: "(\<forall>x\<in>set (dropWhile P xs). P x) \<longleftrightarrow> (\<forall>x\<in>set xs. P x)"
  by (induction xs) auto

lemma trim_Nil_iff: "trim str = [] \<longleftrightarrow> (\<forall>ch\<in>set str. isWhiteSpace ch)"
  by (simp add: trim_def dropWhile_Nil_iff all_dropWhile)

lemma awaited_Returned: "awaited w (Returned v) s = (v, s)"
  by (simp add: awaited_def)

lemma find_in_set: "List.find P xs = Some x \<Longrightarrow> x \<in> set xs"
  by (induction xs) (auto split: if_splits)

lemma all_update:
  assumes "\<forall>x\<in>set xs. P x" and "P y"
  shows "\<forall>x\<in>set (xs[i := y]). P x"
  using assms set_update_subset_insert [of xs i y] by auto

section \<open>The assembler\<close>

text \<open>
  For a list that is not empty both \<open>formatOutput\<close>s give the section of the first item and
  then, for every later item in order, the separator and that item's section.
\<close>

lemma FormatterService_formatOutput_sections:
  "FormatterService_formatOutput (item # items) =
     renderItem item @ concat (map (\<lambda>y. ''---\<newline>\<newline>'' @ renderItem y) items)"
  by (simp add: FormatterService_formatOutput_def join_Cons comp_def del: join.simps)

lemma CodeRulesService_formatOutput_sections:
  "CodeRulesService_formatOutput (item # items) =
     renderItem item @ concat (map (\<lambda>y. ''---\<newline>\<newline>'' @ renderItem y) items)"
  by (simp add: CodeRulesService_formatOutput_def join_Cons comp_def del: join.simps)

lemma renderItem_eq:
  "renderItem \<lparr>file = name, content = body\<rparr> =
     ''## '' @ name @ [CHR 0x0A, CHR 0x0A] @ body @ [CHR 0x0A, CHR 0x0A]"
  by (simp add: renderItem_def)

lemma FormatterService_formatOutput_empty:
  "FormatterService_formatOutput [] = ''No relevant documentation found for this task.''"
  by (simp add: FormatterService_formatOutput_def)

text \<open>
  C8. \<open>formatOutput\<close> of the empty list is the placeholder text, and of a list that is not empty
  the sections in input order, joined by the rule. \<open>FormatterService.formatOutput\<close> does both
  (the three lemmas above). \<open>CodeRulesService.formatOutput\<close> has no test for the empty list:
  there it returns the empty string, not the placeholder.
\<close>

theorem CodeRulesService_formatOutput_empty:
  "CodeRulesService_formatOutput [] = []
   \<and> CodeRulesService_formatOutput [] \<noteq> ''No relevant documentation found for this task.''
   \<and> FormatterService_formatOutput [] = ''No relevant documentation found for this task.''"
  by (simp add: CodeRulesService_formatOutput_def FormatterService_formatOutput_def)

section \<open>filterRelevantFiles\<close>

lemma list_all2_stampedCopy: "list_all2 stampedCopy (map stamp fs) fs"
  by (induction fs) (simp_all add: stampedCopy_def sameButScore_def stamp_def)

text \<open>
  C2. A list of at most three files comes back whole and in order, every file with
  \<open>relevanceScore = 1.0\<close> (whatever score it had) and its other fields untouched; the empty
  list comes back empty. The method returns before its \<open>await\<close>, and the state of the
  service is the one before the call, so nothing was sent to the text generator.
\<close>

theorem filterRelevantFiles_small_list:
  assumes "length files \<le> 3"
  shows "list_all2 stampedCopy (fst (awaited w (filterRelevantFiles w files task) s)) files
       \<and> fst (awaited w (filterRelevantFiles w files task) s) = map stamp files
       \<and> snd (awaited w (filterRelevantFiles w files task) s) = s
       \<and> oracleLog (snd (awaited w (filterRelevantFiles w files task) s)) = oracleLog s
       \<and> (files = [] \<longrightarrow> fst (awaited w (filterRelevantFiles w files task) s) = [])"
  using assms list_all2_stampedCopy [of files]
  by (auto simp: filterRelevantFiles_def awaited_def)

theorem filterRelevantFiles_small_list_witness:
  "length [mkDoc ''a.md'', (mkDoc ''b.md'')\<lparr>relevanceScore := Some (4 / 5)\<rparr>] \<le> 3
   \<and> fst (awaited proseWorld
          (filterRelevantFiles proseWorld [mkDoc ''a.md'', (mkDoc ''b.md'')\<lparr>relevanceScore := Some (4 / 5)\<rparr>]
             ''task'')
          newFilterService)
     = [\<lparr>filename = ''a.md'', path = ''/docs/a.md'', title = None, tags = None, relevanceScore = Some 1\<rparr>,
        \<lparr>filename = ''b.md'', path = ''/docs/b.md'', title = None, tags = None, relevanceScore = Some 1\<rparr>]
   \<and> oracleLog (snd (awaited proseWorld
          (filterRelevantFiles proseWorld [mkDoc ''a.md'', (mkDoc ''b.md'')\<lparr>relevanceScore := Some (4 / 5)\<rparr>]
             ''task'')
          newFilterService)) = []"
proof -
  let ?files = "[mkDoc ''a.md'', (mkDoc ''b.md'')\<lparr>relevanceScore := Some (4 / 5)\<rparr>]"
  let ?res = "fst (awaited proseWorld (filterRelevantFiles proseWorld ?files ''task'') newFilterService)"
  have len: "length ?files \<le> 3" by simp
  note small = filterRelevantFiles_small_list [OF len, of proseWorld "''task''" newFilterService]
  from small have all2: "list_all2 stampedCopy ?res ?files" by blast
  then obtain r1 r2 where res: "?res = [r1, r2]"
    and r1: "stampedCopy r1 (mkDoc ''a.md'')"
    and r2: "stampedCopy r2 ((mkDoc ''b.md'')\<lparr>relevanceScore := Some (4 / 5)\<rparr>)"
    by (auto simp: list_all2_Cons2)
  from r1 have "r1 = \<lparr>filename = ''a.md'', path = ''/docs/a.md'', title = None, tags = None,
      relevanceScore = Some 1\<rparr>"
    by (cases r1) (simp add: stampedCopy_def sameButScore_def mkDoc_def)
  moreover from r2 have "r2 = \<lparr>filename = ''b.md'', path = ''/docs/b.md'', title = None, tags = None,
      relevanceScore = Some 1\<rparr>"
    by (cases r2) (simp add: stampedCopy_def sameButScore_def mkDoc_def)
  moreover from small have "oracleLog (snd (awaited proseWorld
      (filterRelevantFiles proseWorld ?files ''task'') newFilterService)) = oracleLog newFilterService"
    by blast
  ultimately show ?thesis using res len by (simp add: newFilterService_def)
qed

text \<open>
  C3. With more than three files, when the call of the text generator throws, or its answer
  has no bracketed part, or the bracketed part does not parse, the files come back as they
  were given: the same list, no score stamped.
\<close>

theorem filterRelevantFiles_fallback:
  assumes "length files > 3"
    and "noVerdictList w (generateText w (length (oracleLog s)) (filesPrompt files task))"
  shows "fst (awaited w (filterRelevantFiles w files task) s) = files"
  using assms
  by (auto simp: filterRelevantFiles_def awaited_def noVerdictList_def applyVerdicts_def isl_def
      split: sum.splits option.splits)

theorem filterRelevantFiles_fallback_witness:
  "length fourDocs > 3
   \<and> noVerdictList proseWorld
        (generateText proseWorld (length (oracleLog newFilterService)) (filesPrompt fourDocs ''task''))
   \<and> fst (awaited proseWorld (filterRelevantFiles proseWorld fourDocs ''task'') newFilterService) = fourDocs"
proof -
  have len: "length fourDocs > 3" by (simp add: fourDocs_def)
  have nov: "noVerdictList proseWorld
      (generateText proseWorld (length (oracleLog newFilterService)) (filesPrompt fourDocs ''task''))"
    by (simp add: noVerdictList_def proseWorld_def matchJsonArray_def)
  from filterRelevantFiles_fallback [OF len nov] len nov show ?thesis by simp
qed

lemma isVerdictFor_not_null: "isVerdictFor i v \<Longrightarrow> v \<noteq> JNull"
  by (auto simp: isVerdictFor_def verdictField_def)

lemma getProp_verdictField: "v \<noteq> JNull \<Longrightarrow> getProp v key = Inr (verdictField v key)"
  by (cases v) (simp_all add: verdictField_def)

lemma findVerdict_find:
  "findVerdict verdicts k =
     (if JNull \<in> set (takeWhile (\<lambda>v. verdictField v ''fileIndex'' \<noteq> Some (JNumber (of_nat k))) verdicts)
      then Inl TypeError
      else Inr (List.find (\<lambda>v. verdictField v ''fileIndex'' = Some (JNumber (of_nat k))) verdicts))"
proof (induction verdicts)
  case Nil
  then show ?case by simp
next
  case (Cons item items)
  show ?case
  proof (cases "item = JNull")
    case True
    then show ?thesis by (simp add: verdictField_def)
  next
    case False
    with Cons show ?thesis by (auto simp: getProp_verdictField)
  qed
qed

lemma keepFile_first:
  "keepFile verdicts i =
     (if nullBeforeVerdict verdicts i then Inl TypeError
      else Inr (\<not> firstVerdictExcludes verdicts i))"
proof -
  define k where "k = i + 1"
  have fv: "findVerdict verdicts k =
      (if nullBeforeVerdict verdicts i then Inl TypeError
       else Inr (List.find (isVerdictFor i) verdicts))"
    unfolding nullBeforeVerdict_def isVerdictFor_def k_def [symmetric]
    by (rule findVerdict_find)
  have kf: "keepFile verdicts i =
      (case findVerdict verdicts k of
         Inl e \<Rightarrow> Inl e
       | Inr None \<Rightarrow> Inr True
       | Inr (Some fileData) \<Rightarrow>
           (case getProp fileData ''include'' of
              Inl e \<Rightarrow> Inl e
            | Inr v \<Rightarrow> Inr (v \<noteq> Some (JBool False))))"
    unfolding keepFile_def k_def ..
  show ?thesis
  proof (cases "List.find (isVerdictFor i) verdicts")
    case None
    then show ?thesis by (simp add: kf fv firstVerdictExcludes_def)
  next
    case (Some v)
    then have "isVerdictFor i v" by (auto simp: find_Some_iff)
    then have "v \<noteq> JNull" by (rule isVerdictFor_not_null)
    with Some show ?thesis
      by (simp add: kf fv firstVerdictExcludes_def getProp_verdictField)
  qed
qed

lemma filterFrom_enumerate:
  "filterFrom verdicts index fs =
     (if list_ex (nullBeforeVerdict verdicts) [index..<index + length fs] then Inl TypeError
      else Inr (map snd (filter (\<lambda>(i, f). \<not> firstVerdictExcludes verdicts i) (enumerate index fs))))"
proof (induction fs arbitrary: index)
  case Nil
  then show ?case by simp
next
  case (Cons f fs)
  have len: "index + length (f # fs) = Suc index + length fs" by simp
  have "[index..<index + length (f # fs)] = index # [Suc index..<index + length (f # fs)]"
    by (rule upt_conv_Cons) simp
  then have upt: "[index..<index + length (f # fs)] = index # [Suc index..<Suc index + length fs]"
    by (simp only: len)
  show ?case
    unfolding upt by (simp add: keepFile_first Cons.IH)
qed

text \<open>
  C4, as amended. With more than three files and a parsed list of verdicts: when the lookup
  for some file reads a \<open>null\<close> entry (one that stands before the first verdict for that
  file), it throws and the files come back as they were given, none stamped. Otherwise the
  result matches, in order, the files whose first verdict (the first entry with
  \<open>fileIndex = i + 1\<close> for the file at position \<open>i\<close>) does not have \<open>include\<close> exactly
  \<open>false\<close>: a file with no verdict, or whose first verdict has \<open>include\<close> true, absent or
  anything else, is kept; and every file kept has \<open>relevanceScore = 1.0\<close> and its other
  fields untouched.
\<close>

theorem filterRelevantFiles_first_verdict:
  assumes "length files > 3"
    and "generateText w (length (oracleLog s)) (filesPrompt files task) = Inr answer"
    and "matchJsonArray answer = Some jsonText"
    and "JSON_parse w jsonText = Inr (JArray verdicts)"
  shows "if lookupThrows verdicts (length files)
         then fst (awaited w (filterRelevantFiles w files task) s) = files
         else list_all2 stampedCopy (fst (awaited w (filterRelevantFiles w files task) s))
                (map snd (filter (\<lambda>(i, f). \<not> firstVerdictExcludes verdicts i) (enumerate 0 files)))"
proof -
  let ?kept = "map snd (filter (\<lambda>(i, f). \<not> firstVerdictExcludes verdicts i) (enumerate 0 files))"
  have ff: "filterFrom verdicts 0 files =
      (if lookupThrows verdicts (length files) then Inl TypeError else Inr ?kept)"
    using filterFrom_enumerate [of verdicts 0 files] by (simp add: lookupThrows_def)
  have res: "fst (awaited w (filterRelevantFiles w files task) s) =
      (if lookupThrows verdicts (length files) then files else map stamp ?kept)"
    using assms by (simp add: filterRelevantFiles_def awaited_def applyVerdicts_def ff)
  show ?thesis
    unfolding res using list_all2_stampedCopy [of ?kept] by simp
qed

theorem filterRelevantFiles_first_verdict_witness:
  "length fourDocs > 3
   \<and> matchJsonArray oneVerdictText = Some oneVerdictJson
   \<and> \<not> lookupThrows oneVerdict (length fourDocs)
   \<and> fst (awaited oneVerdictWorld (filterRelevantFiles oneVerdictWorld fourDocs ''task'') newFilterService)
     = [(mkDoc ''a.md'')\<lparr>relevanceScore := Some 1\<rparr>, (mkDoc ''b.md'')\<lparr>relevanceScore := Some 1\<rparr>,
        (mkDoc ''d.md'')\<lparr>relevanceScore := Some 1\<rparr>]
   \<and> lookupThrows nullVerdict (length fourDocs)
   \<and> fst (awaited nullVerdictWorld (filterRelevantFiles nullVerdictWorld fourDocs ''task'') newFilterService)
     = fourDocs"
proof -
  let ?res = "fst (awaited oneVerdictWorld (filterRelevantFiles oneVerdictWorld fourDocs ''task'')
      newFilterService)"
  have len: "length fourDocs > 3" by (simp add: fourDocs_def)
  have gen: "generateText oneVerdictWorld (length (oracleLog newFilterService))
               (filesPrompt fourDocs ''task'') = Inr oneVerdictText"
    by (simp add: oneVerdictWorld_def)
  have mat: "matchJsonArray oneVerdictText = Some oneVerdictJson"
    by (simp add: matchJsonArray_def oneVerdictText_def oneVerdictJson_def)
  have par: "JSON_parse oneVerdictWorld oneVerdictJson = Inr (JArray oneVerdict)"
    by (simp add: oneVerdictWorld_def)
  have nothrow: "\<not> lookupThrows oneVerdict (length fourDocs)"
    by (simp add: lookupThrows_def nullBeforeVerdict_def oneVerdict_def fourDocs_def upt_rec
        isVerdictFor_def verdictField_def)
  have kept: "map snd (filter (\<lambda>(i, f). \<not> firstVerdictExcludes oneVerdict i) (enumerate 0 fourDocs))
      = [mkDoc ''a.md'', mkDoc ''b.md'', mkDoc ''d.md'']"
    by (simp add: fourDocs_def oneVerdict_def firstVerdictExcludes_def isVerdictFor_def
        verdictField_def)
  from filterRelevantFiles_first_verdict [OF len gen mat par] nothrow kept
  have "list_all2 stampedCopy ?res [mkDoc ''a.md'', mkDoc ''b.md'', mkDoc ''d.md'']"
    by simp
  then obtain r1 r2 r3 where res: "?res = [r1, r2, r3]"
    and r: "stampedCopy r1 (mkDoc ''a.md'')" "stampedCopy r2 (mkDoc ''b.md'')"
      "stampedCopy r3 (mkDoc ''d.md'')"
    by (auto simp: list_all2_Cons2)
  have eq: "r = (mkDoc name)\<lparr>relevanceScore := Some 1\<rparr>" if "stampedCopy r (mkDoc name)" for r name
    using that by (cases r) (simp add: stampedCopy_def sameButScore_def mkDoc_def)
  have gen': "generateText nullVerdictWorld (length (oracleLog newFilterService))
               (filesPrompt fourDocs ''task'') = Inr nullVerdictText"
    by (simp add: nullVerdictWorld_def)
  have mat': "matchJsonArray nullVerdictText = Some nullVerdictText"
    by (simp add: matchJsonArray_def nullVerdictText_def)
  have par': "JSON_parse nullVerdictWorld nullVerdictText = Inr (JArray nullVerdict)"
    by (simp add: nullVerdictWorld_def)
  have throw: "lookupThrows nullVerdict (length fourDocs)"
    by (simp add: lookupThrows_def nullBeforeVerdict_def nullVerdict_def fourDocs_def upt_rec
        isVerdictFor_def verdictField_def)
  from filterRelevantFiles_first_verdict [OF len gen' mat' par'] throw
  have "fst (awaited nullVerdictWorld (filterRelevantFiles nullVerdictWorld fourDocs ''task'')
      newFilterService) = fourDocs"
    by simp
  with res r [THEN eq] len mat nothrow throw show ?thesis by simp
qed

text \<open>
  C4 as stated fails, in two ways. The first answer holds two verdicts for the first file, the
  second with \<open>include\<close> false: some verdict with \<open>fileIndex = 1\<close> excludes the file at
  position 0, but the lookup takes the first one and all four files are returned. The second
  answer excludes the first file and ends in \<open>null\<close>: the lookup for the second file throws
  on it, and all four files are returned as they were given, none stamped.
\<close>

theorem filterRelevantFiles_two_verdicts_counterexample:
  "someVerdictExcludes twoVerdicts 0
   \<and> generateText twoVerdictsWorld 0 (filesPrompt fourDocs ''task'') = Inr twoVerdictsText
   \<and> JSON_parse twoVerdictsWorld twoVerdictsText = Inr (JArray twoVerdicts)
   \<and> fst (awaited twoVerdictsWorld (filterRelevantFiles twoVerdictsWorld fourDocs ''task'') newFilterService)
       = [(mkDoc ''a.md'')\<lparr>relevanceScore := Some 1\<rparr>, (mkDoc ''b.md'')\<lparr>relevanceScore := Some 1\<rparr>,
          (mkDoc ''c.md'')\<lparr>relevanceScore := Some 1\<rparr>, (mkDoc ''d.md'')\<lparr>relevanceScore := Some 1\<rparr>]
   \<and> someVerdictExcludes nullVerdict 0
   \<and> generateText nullVerdictWorld 0 (filesPrompt fourDocs ''task'') = Inr nullVerdictText
   \<and> JSON_parse nullVerdictWorld nullVerdictText = Inr (JArray nullVerdict)
   \<and> fst (awaited nullVerdictWorld (filterRelevantFiles nullVerdictWorld fourDocs ''task'') newFilterService)
       = [mkDoc ''a.md'', mkDoc ''b.md'', mkDoc ''c.md'', mkDoc ''d.md'']"
  by (simp add: awaited_def filterRelevantFiles_def fourDocs_def twoVerdictsWorld_def failingWorld_def
      applyVerdicts_def matchJsonArray_def twoVerdictsText_def twoVerdicts_def keepFile_def
      nullVerdictWorld_def nullVerdictText_def nullVerdict_def stamp_def
      someVerdictExcludes_def isVerdictFor_def verdictField_def)

lemma filterFrom_subseq: "filterFrom filterData index fs = Inr kept \<Longrightarrow> subseq kept fs"
  by (induction fs arbitrary: index kept) (auto split: sum.splits if_splits)

lemma list_all2_stamp: "list_all2 sameButScore (map stamp fs) fs"
  by (induction fs) (simp_all add: sameButScore_def stamp_def)

lemma list_all2_same: "list_all2 sameButScore fs fs"
  by (induction fs) (simp_all add: sameButScore_def)

lemma applyVerdicts_subseq:
  "applyVerdicts w files answer = Inr res \<Longrightarrow> \<exists>ys. subseq ys files \<and> list_all2 sameButScore res ys"
  unfolding applyVerdicts_def
  by (auto split: option.splits sum.splits json.splits
      intro: list_all2_same list_all2_stamp dest!: filterFrom_subseq)

text \<open>
  C10. Whatever the files, the task, the state and the behaviour of the text generator and of
  the parser, the list returned by \<open>filterRelevantFiles\<close> matches, element by element, a
  subsequence of the input (elements of the input at increasing positions): each returned
  record equals its input record in every field but \<open>relevanceScore\<close>.
\<close>

theorem filterRelevantFiles_subsequence:
  "\<exists>ys. subseq ys files
      \<and> list_all2 sameButScore (fst (awaited w (filterRelevantFiles w files task) s)) ys"
proof (cases "length files \<le> 3")
  case True
  then have "fst (awaited w (filterRelevantFiles w files task) s) = map stamp files"
    by (auto simp: filterRelevantFiles_def awaited_def)
  then show ?thesis using list_all2_stamp by (metis subseq_order.order_refl)
next
  case False
  let ?out = "generateText w (length (oracleLog s)) (filesPrompt files task)"
  show ?thesis
  proof (cases "case ?out of Inl e \<Rightarrow> None
                | Inr answer \<Rightarrow> (case applyVerdicts w files answer of Inl e \<Rightarrow> None | Inr res \<Rightarrow> Some res)")
    case None
    then have "fst (awaited w (filterRelevantFiles w files task) s) = files"
      using False by (auto simp: filterRelevantFiles_def awaited_def split: sum.splits)
    then show ?thesis using list_all2_same by (metis subseq_order.order_refl)
  next
    case (Some res)
    then obtain answer where t: "?out = Inr answer" "applyVerdicts w files answer = Inr res"
      by (auto split: sum.splits)
    then have "fst (awaited w (filterRelevantFiles w files task) s) = res"
      using False by (auto simp: filterRelevantFiles_def awaited_def)
    then show ?thesis using applyVerdicts_subseq [OF t(2)] by simp
  qed
qed

section \<open>filterRelevantContent\<close>

text \<open>
  C5. For a content that is empty or made of white space only the call returns the empty
  string and leaves the service as it was: nothing is sent to the text generator and nothing
  is written to the cache.
\<close>

theorem filterRelevantContent_blank:
  assumes "contentStr = [] \<or> (\<forall>ch\<in>set contentStr. isWhiteSpace ch)"
  shows "filterRelevantContent contentStr task s = Returned []
       \<and> awaited w (filterRelevantContent contentStr task s) s = ([], s)"
  using assms by (auto simp: filterRelevantContent_def awaited_def trim_Nil_iff)

theorem filterRelevantContent_blank_witness:
  "isWhiteSpace CHR '' '' \<and> isWhiteSpace (CHR 0x0A) \<and> isWhiteSpace (CHR 0x09)
   \<and> awaited pruningWorld (filterRelevantContent [CHR '' '', CHR 0x0A, CHR 0x09] ''task'' newFilterService)
        newFilterService = ([], newFilterService)"
proof -
  have ws: "\<forall>ch\<in>set [CHR '' '', CHR 0x0A, CHR 0x09]. isWhiteSpace ch"
    by (simp add: isWhiteSpace_def)
  from filterRelevantContent_blank [OF disjI2, OF ws, of "''task''" newFilterService pruningWorld, THEN conjunct2] ws
  show ?thesis by simp
qed

lemma longContent_not_blank: "\<not> (longContent = [] \<or> trim longContent = [])"
  by (simp add: trim_Nil_iff longContent_def isWhiteSpace_def)

lemma longContent_awaits:
  assumes "taskCache s = Map.empty"
  shows "filterRelevantContent longContent task s =
           Awaiting (contentPrompt longContent task)
             (\<lambda>outcome s'.
                (case outcome of
                   Inr txt \<Rightarrow> (txt, s'\<lparr>taskCache := (taskCache s')(createCacheKey longContent task \<mapsto> txt)\<rparr>)
                 | Inl e \<Rightarrow> (longContent, s')))"
  using assms longContent_not_blank
  by (simp add: filterRelevantContent_def) (simp add: longContent_def)

text \<open>
  C7. When the call reaches the text generator and the text generator throws, the result is
  the content as it was given and the cache is the one before the call.
\<close>

theorem filterRelevantContent_oracle_failure:
  assumes "oracleLog (snd (awaited w (filterRelevantContent contentStr task s) s)) \<noteq> oracleLog s"
    and "generateText w (length (oracleLog s)) (contentPrompt contentStr task) = Inl e"
  shows "fst (awaited w (filterRelevantContent contentStr task s) s) = contentStr
       \<and> taskCache (snd (awaited w (filterRelevantContent contentStr task s) s)) = taskCache s"
  using assms
  by (auto simp: filterRelevantContent_def awaited_def Let_def split: if_splits option.splits)

theorem filterRelevantContent_oracle_failure_witness:
  "oracleLog (snd (awaited failingWorld (filterRelevantContent longContent ''task'' newFilterService)
       newFilterService)) \<noteq> oracleLog newFilterService
   \<and> fst (awaited failingWorld (filterRelevantContent longContent ''task'' newFilterService)
       newFilterService) = longContent
   \<and> taskCache (snd (awaited failingWorld (filterRelevantContent longContent ''task'' newFilterService)
       newFilterService)) = Map.empty"
proof -
  have called: "oracleLog (snd (awaited failingWorld
      (filterRelevantContent longContent ''task'' newFilterService) newFilterService))
      \<noteq> oracleLog newFilterService"
    by (simp add: longContent_awaits awaited_def newFilterService_def failingWorld_def)
  have fails: "generateText failingWorld (length (oracleLog newFilterService))
      (contentPrompt longContent ''task'') = Inl OracleError"
    by (simp add: failingWorld_def)
  from filterRelevantContent_oracle_failure [OF called fails] called
  show ?thesis by (simp add: newFilterService_def)
qed

text \<open>
  C6, as amended. Two calls in succession with the same content and task, the first of which
  does not end in a failed call of the text generator, send at most one prompt to the text
  generator between them, and the second call returns what the first returned.
\<close>

theorem filterRelevantContent_twice:
  assumes "\<not> oracleCallFails w contentStr task s"
  shows "length (oracleLog (snd (snd (filterTwice w contentStr task s)))) \<le> length (oracleLog s) + 1
       \<and> fst (snd (filterTwice w contentStr task s)) = fst (filterTwice w contentStr task s)"
proof (cases "filterRelevantContent contentStr task s")
  case (Returned v)
  then show ?thesis by (auto simp: filterTwice_def awaited_def)
next
  case (Awaiting prompt k)
  with assms obtain tx where tx: "generateText w (length (oracleLog s)) prompt = Inr tx"
    by (auto simp: oracleCallFails_def isl_def) (metis sum.exhaust_sel isl_def)
  let ?key = "createCacheKey contentStr task"
  let ?s1 = "s\<lparr>oracleLog := oracleLog s @ [prompt],
               taskCache := (taskCache (s\<lparr>oracleLog := oracleLog s @ [prompt]\<rparr>))(?key \<mapsto> tx)\<rparr>"
  from Awaiting have nonblank: "\<not> (contentStr = [] \<or> trim contentStr = [])"
    by (auto simp: filterRelevantContent_def split: if_splits)
  from Awaiting tx have first: "awaited w (filterRelevantContent contentStr task s) s = (tx, ?s1)"
    by (auto simp: filterRelevantContent_def awaited_def Let_def split: if_splits option.splits)
  from nonblank have second: "filterRelevantContent contentStr task ?s1 = Returned tx"
    by (simp add: filterRelevantContent_def)
  from first second show ?thesis
    by (auto simp: filterTwice_def awaited_def)
qed

theorem filterRelevantContent_twice_witness:
  "\<not> oracleCallFails pruningWorld longContent ''task'' newFilterService
   \<and> length (oracleLog (snd (snd (filterTwice pruningWorld longContent ''task'' newFilterService)))) = 1
   \<and> fst (snd (filterTwice pruningWorld longContent ''task'' newFilterService)) = ''# Rules''
   \<and> fst (filterTwice pruningWorld longContent ''task'' newFilterService) = ''# Rules''"
proof -
  have ok: "\<not> oracleCallFails pruningWorld longContent ''task'' newFilterService"
    by (simp add: oracleCallFails_def longContent_awaits newFilterService_def pruningWorld_def)
  have first: "awaited pruningWorld (filterRelevantContent longContent ''task'' newFilterService)
      newFilterService
      = (''# Rules'', \<lparr>taskCache = [createCacheKey longContent ''task'' \<mapsto> ''# Rules''],
                       oracleLog = [contentPrompt longContent ''task'']\<rparr>)"
    by (simp add: longContent_awaits awaited_def newFilterService_def pruningWorld_def)
  have second: "filterRelevantContent longContent ''task''
      \<lparr>taskCache = [createCacheKey longContent ''task'' \<mapsto> ''# Rules''],
       oracleLog = [contentPrompt longContent ''task'']\<rparr> = Returned ''# Rules''"
    using longContent_not_blank by (simp add: filterRelevantContent_def)
  have twice: "filterTwice pruningWorld longContent ''task'' newFilterService
      = (''# Rules'', ''# Rules'',
         \<lparr>taskCache = [createCacheKey longContent ''task'' \<mapsto> ''# Rules''],
          oracleLog = [contentPrompt longContent ''task'']\<rparr>)"
    by (simp add: filterTwice_def first second awaited_Returned)
  from filterRelevantContent_twice [OF ok] ok twice show ?thesis by simp
qed

text \<open>
  C6 as stated fails: with a text generator that throws, nothing is cached by the first call,
  and two calls with the same long content and task send two prompts.
\<close>

theorem filterRelevantContent_twice_failing_counterexample:
  "oracleLog newFilterService = []
   \<and> oracleLog (snd (snd (filterTwice failingWorld longContent ''task'' newFilterService)))
     = [contentPrompt longContent ''task'', contentPrompt longContent ''task'']"
  by (simp add: filterTwice_def longContent_awaits awaited_def newFilterService_def failingWorld_def)

section \<open>The pipeline over the surviving files\<close>


lemma advance_at:
  assumes "i < length us" and "us ! i = (f, u)"
  shows "advance w task i (s, us) =
     (case u of
        Queued \<Rightarrow> (s, us[i := (f, Reading)])
      | Reading \<Rightarrow>
          (case filterRelevantContent (getFileContent w (path f)) task s of
             Returned v \<Rightarrow> (s, us[i := (f, Finished \<lparr>file = filename f, content = v\<rparr>)])
           | Awaiting prompt k \<Rightarrow>
               (s\<lparr>oracleLog := oracleLog s @ [prompt]\<rparr>,
                us[i := (f, Filtering (generateText w (length (oracleLog s)) prompt) k)]))
      | Filtering outcome k \<Rightarrow>
          (snd (k outcome s), us[i := (f, Finished \<lparr>file = filename f, content = fst (k outcome s)\<rparr>)])
      | Finished r \<Rightarrow> (s, us))"
  using assms by (simp add: advance_def split: unit_state.splits prod.splits)

lemma advance_beyond: "length us \<le> i \<Longrightarrow> advance w task i (s, us) = (s, us)"
  by (simp add: advance_def)

lemma advance_others:
  assumes "advance w task i (s, us) = (s', us')"
  shows "length us' = length us \<and> map fst us' = map fst us
       \<and> (\<forall>j<length us. j \<noteq> i \<longrightarrow> us' ! j = us ! j)"
proof (cases "i < length us")
  case False
  with assms show ?thesis by (simp add: advance_beyond)
next
  case True
  obtain f u where fu: "us ! i = (f, u)" by (cases "us ! i")
  have upd: "map fst (us[i := (f, u')]) = map fst us" for u'
    using fu True by (simp add: map_update) (metis fst_conv list_update_id map_update)
  from assms show ?thesis
    unfolding advance_at [OF True fu]
    by (auto simp: upd split: unit_state.splits suspended.splits)
qed

subsection \<open>The limiter\<close>

lemma filter_update_length:
  assumes "i < length xs"
  shows "length (filter P (xs[i := x])) + (if P (xs ! i) then 1 else 0)
       = length (filter P xs) + (if P x then 1 else 0)"
  using assms
proof (induction xs arbitrary: i)
  case Nil
  then show ?case by simp
next
  case (Cons y ys)
  show ?case
  proof (cases i)
    case 0
    then show ?thesis by simp
  next
    case (Suc j)
    with Cons.prems have "j < length ys" by simp
    from Cons.IH [OF this] Suc show ?thesis by simp
  qed
qed

lemma inFlight_update:
  assumes "i < length us"
  shows "inFlight (us[i := (f, u)]) + (if running (snd (us ! i)) then 1 else 0)
       = inFlight us + (if running u then 1 else 0)"
  using filter_update_length [OF assms, of "\<lambda>x. running (snd x)" "(f, u)"]
  by (simp add: inFlight_def)

lemma advance_inFlight:
  assumes "advance w task i (s, us) = (s', us')"
  shows "inFlight us' \<le> inFlight us + (if i < length us \<and> stage (snd (us ! i)) = 0 then 1 else 0)"
proof (cases "i < length us")
  case False
  with assms show ?thesis by (simp add: advance_beyond)
next
  case True
  obtain f u where fu: "us ! i = (f, u)" by (cases "us ! i")
  note upd = inFlight_update [OF True, of f]
  show ?thesis
  proof (cases u)
    case Queued
    with assms True fu upd [of Reading] show ?thesis
      by (simp add: advance_at [OF True fu])
  next
    case Reading
    show ?thesis
    proof (cases "filterRelevantContent (getFileContent w (path f)) task s")
      case (Returned v)
      with assms True fu Reading upd [of "Finished \<lparr>file = filename f, content = v\<rparr>"]
      show ?thesis by (auto simp: advance_at [OF True fu])
    next
      case (Awaiting prompt k)
      with assms True fu Reading
        upd [of "Filtering (generateText w (length (oracleLog s)) prompt) k"]
      show ?thesis by (auto simp: advance_at [OF True fu])
    qed
  next
    case (Filtering outcome k)
    with assms True fu
      upd [of "Finished \<lparr>file = filename f, content = fst (k outcome s)\<rparr>"]
    show ?thesis by (auto simp: advance_at [OF True fu])
  next
    case (Finished r)
    with assms True fu show ?thesis by (simp add: advance_at [OF True fu])
  qed
qed

lemma resume_bound:
  assumes "inFlight (snd p) \<le> 4"
  shows "inFlight (snd (resume w task i p)) \<le> 4"
proof (cases "limitAdmits 4 (snd p) i")
  case False
  with assms show ?thesis by (simp add: resume_def)
next
  case True
  obtain s us where p: "p = (s, us)" by (cases p)
  obtain s' us' where adv: "advance w task i (s, us) = (s', us')"
    by (cases "advance w task i (s, us)")
  from advance_inFlight [OF adv] True assms p
  have "inFlight us' \<le> 4"
    by (auto simp: limitAdmits_def split: if_splits)
  with True p adv show ?thesis by (simp add: resume_def)
qed

lemma inFlight_initialUnits: "inFlight (initialUnits fs) = 0"
  by (induction fs) (simp_all add: inFlight_def initialUnits_def)

text \<open>
  C9. At every moment of every run of the pipeline (after any sequence of steps of the event
  loop, for any number of files) at most 4 per-file units are in flight: started by the
  limiter and not yet returned.
\<close>

theorem processFiles_at_most_four_in_flight:
  "inFlight (snd (pipelineAfter w task relevantFiles s schedule)) \<le> 4"
proof (induction schedule rule: rev_induct)
  case Nil
  then show ?case by (simp add: pipelineAfter_def inFlight_initialUnits)
next
  case (snoc i schedule)
  from resume_bound [OF snoc.IH, of w task i]
  show ?case by (simp add: pipelineAfter_def)
qed

text \<open>The bound is met: with five files, after the event loop has turned to each unit once,
  four are reading their files and the fifth is still queued.\<close>

lemma fifth_unit_waits:
  "snd (pipelineAfter failingWorld ''task'' fiveDocs newFilterService [0, 1, 2, 3, 4])
     = [(mkDoc ''a.md'', Reading), (mkDoc ''b.md'', Reading), (mkDoc ''c.md'', Reading),
        (mkDoc ''d.md'', Reading), (mkDoc ''e.md'', Queued)]
   \<and> inFlight (snd (pipelineAfter failingWorld ''task'' fiveDocs newFilterService [0, 1, 2, 3, 4])) = 4"
  by (simp add: pipelineAfter_def resume_def limitAdmits_def inFlight_def initialUnits_def fiveDocs_def
      advance_def)

subsection \<open>Every unit returns the filtered content of its own file\<close>








subsection \<open>Every list of files has a run that completes\<close>

text \<open>
  One such run takes the units one after the other, each through its three steps; no unit
  is in flight when the next is started, so the limiter starts it.
\<close>

lemma advance_progress:
  assumes "advance w task i (s, us) = (s', us')" and "i < length us"
  shows "min 3 (Suc (stage (snd (us ! i)))) \<le> stage (snd (us' ! i))"
proof -
  obtain f u where fu: "us ! i = (f, u)" by (cases "us ! i")
  from assms show ?thesis
    unfolding advance_at [OF assms(2) fu] using fu
    by (cases u) (auto split: suspended.splits)
qed

lemma inFlight_zero:
  assumes "\<forall>j<length us. \<not> running (snd (us ! j))"
  shows "inFlight us = 0"
proof -
  have "filter (\<lambda>u. running (snd u)) us = []"
    using assms by (fastforce simp: filter_empty_conv in_set_conv_nth)
  then show ?thesis by (simp add: inFlight_def)
qed

lemma resume_started:
  assumes "resume w task i (s, us) = (s', us')" and "i < length us"
    and "inFlight us < 4 \<or> stage (snd (us ! i)) \<noteq> 0"
  shows "length us' = length us \<and> (\<forall>j<length us. j \<noteq> i \<longrightarrow> us' ! j = us ! j)
       \<and> min 3 (Suc (stage (snd (us ! i)))) \<le> stage (snd (us' ! i))"
proof -
  from assms(3) have "limitAdmits 4 us i" by (auto simp: limitAdmits_def)
  with assms(1) have adv: "advance w task i (s, us) = (s', us')" by (simp add: resume_def)
  from advance_others [OF adv] advance_progress [OF adv assms(2)] show ?thesis by simp
qed

lemma three_steps:
  assumes run: "fold (resume w task) [m, m, m] (s, us) = (s', us')"
    and m: "m < length us"
    and idle: "\<forall>j<length us. \<not> running (snd (us ! j))"
  shows "length us' = length us \<and> (\<forall>j<length us. j \<noteq> m \<longrightarrow> us' ! j = us ! j)
       \<and> 3 \<le> stage (snd (us' ! m))"
proof -
  obtain s1 us1 where r1: "resume w task m (s, us) = (s1, us1)"
    by (cases "resume w task m (s, us)")
  obtain s2 us2 where r2: "resume w task m (s1, us1) = (s2, us2)"
    by (cases "resume w task m (s1, us1)")
  from run r1 r2 have r3: "resume w task m (s2, us2) = (s', us')" by simp
  from inFlight_zero [OF idle] have "inFlight us < 4" by simp
  with resume_started [OF r1 m]
  have l1: "length us1 = length us" and o1: "\<forall>j<length us. j \<noteq> m \<longrightarrow> us1 ! j = us ! j"
    and p1: "1 \<le> stage (snd (us1 ! m))" by simp_all
  from l1 m have m1: "m < length us1" by simp
  from p1 resume_started [OF r2 m1]
  have l2: "length us2 = length us1" and o2: "\<forall>j<length us1. j \<noteq> m \<longrightarrow> us2 ! j = us1 ! j"
    and p2: "2 \<le> stage (snd (us2 ! m))" by auto
  from l2 m1 have m2: "m < length us2" by simp
  from p2 resume_started [OF r3 m2]
  have l3: "length us' = length us2" and o3: "\<forall>j<length us2. j \<noteq> m \<longrightarrow> us' ! j = us2 ! j"
    and p3: "3 \<le> stage (snd (us' ! m))" by auto
  from l1 l2 l3 o1 o2 o3 p3 show ?thesis by simp
qed

lemma one_by_one:
  assumes "fold (resume w task) (concat (map (\<lambda>i. [i, i, i]) [0..<m])) (s, initialUnits fs) = (s', us')"
    and "m \<le> length fs"
  shows "length us' = length fs
       \<and> (\<forall>j<m. 3 \<le> stage (snd (us' ! j)))
       \<and> (\<forall>j<length fs. m \<le> j \<longrightarrow> snd (us' ! j) = Queued)"
  using assms
proof (induction m arbitrary: s' us')
  case 0
  then show ?case by (auto simp: initialUnits_def)
next
  case (Suc m)
  let ?pre = "concat (map (\<lambda>i. [i, i, i]) [0..<m])"
  obtain s1 us1 where mid: "fold (resume w task) ?pre (s, initialUnits fs) = (s1, us1)"
    by (cases "fold (resume w task) ?pre (s, initialUnits fs)")
  with Suc.prems(1) have last: "fold (resume w task) [m, m, m] (s1, us1) = (s', us')" by simp
  from Suc.IH [OF mid] Suc.prems(2)
  have len1: "length us1 = length fs"
    and done1: "\<forall>j<m. 3 \<le> stage (snd (us1 ! j))"
    and rest1: "\<forall>j<length fs. m \<le> j \<longrightarrow> snd (us1 ! j) = Queued"
    by simp_all
  have idle: "\<forall>j<length us1. \<not> running (snd (us1 ! j))"
  proof (intro allI impI)
    fix j assume j: "j < length us1"
    show "\<not> running (snd (us1 ! j))"
    proof (cases "j < m")
      case True
      with done1 have "3 \<le> stage (snd (us1 ! j))" by simp
      then show ?thesis by (cases "snd (us1 ! j)") simp_all
    next
      case False
      with rest1 j len1 show ?thesis by simp
    qed
  qed
  from Suc.prems(2) len1 have m: "m < length us1" by simp
  from three_steps [OF last m idle] len1
  have len: "length us' = length fs"
    and others: "\<forall>j<length fs. j \<noteq> m \<longrightarrow> us' ! j = us1 ! j"
    and this_one: "3 \<le> stage (snd (us' ! m))"
    by simp_all
  have "3 \<le> stage (snd (us' ! j))" if "j < Suc m" for j
  proof (cases "j = m")
    case True
    with this_one show ?thesis by simp
  next
    case False
    with that have "j < m" by simp
    with done1 others Suc.prems(2) show ?thesis by simp
  qed
  moreover have "snd (us' ! j) = Queued" if "j < length fs" "Suc m \<le> j" for j
    using that others rest1 by simp
  ultimately show ?case using len by simp
qed

lemma promiseAll_finished:
  assumes "\<forall>j<length us. 3 \<le> stage (snd (us ! j))"
  shows "\<exists>res. promiseAll us = Some res"
  using assms
proof (induction us)
  case Nil
  then show ?case by simp
next
  case (Cons u us)
  obtain f st where u: "u = (f, st)" by (cases u)
  from Cons.prems have "3 \<le> stage (snd ((u # us) ! 0))" by blast
  with u obtain r where st: "st = Finished r" by (cases st) simp_all
  have "\<forall>j<length us. 3 \<le> stage (snd (us ! j))"
  proof (intro allI impI)
    fix j assume "j < length us"
    then have "Suc j < length (u # us)" by simp
    with Cons.prems have "3 \<le> stage (snd ((u # us) ! Suc j))" by blast
    then show "3 \<le> stage (snd (us ! j))" by simp
  qed
  from Cons.IH [OF this] u st show ?case by auto
qed

lemma processFiles_completes:
  "\<exists>res. fst (processFiles w task relevantFiles
              (concat (map (\<lambda>i. [i, i, i]) [0..<length relevantFiles])) s) = Some res"
proof -
  let ?sched = "concat (map (\<lambda>i. [i, i, i]) [0..<length relevantFiles])"
  obtain s' us' where run: "fold (resume w task) ?sched (s, initialUnits relevantFiles) = (s', us')"
    by (cases "fold (resume w task) ?sched (s, initialUnits relevantFiles)")
  from one_by_one [OF run]
  have "\<forall>j<length us'. 3 \<le> stage (snd (us' ! j))" by simp
  from promiseAll_finished [OF this] obtain res where "promiseAll us' = Some res" ..
  with run show ?thesis by (simp add: processFiles_def)
qed



text \<open>
  The content clause is specific: in this run the content of the second file is not a
  filtered content of the first one.
\<close>

lemma other_content_is_not_filtered_content:
  "\<not> filteredContentOf twoFilesWorld ''task'' [mkDoc ''a.md'', mkDoc ''b.md''] newFilterService
        [0, 0, 1, 1, 0] 0 ''Log errors.''"
proof
  let ?files = "[mkDoc ''a.md'', mkDoc ''b.md'']"
  let ?after = "pipelineAfter twoFilesWorld ''task'' ?files newFilterService"
  assume "filteredContentOf twoFilesWorld ''task'' ?files newFilterService [0, 0, 1, 1, 0] 0 ''Log errors.''"
  then obtain pre post where split: "[0, 0, 1, 1, 0] = pre @ (0::nat) # post"
    and reading: "snd (snd (?after pre) ! 0) = Reading"
    and out: "''Log errors.'' = outputOf twoFilesWorld ''task'' (?files ! 0) (fst (?after pre))"
    unfolding filteredContentOf_def by blast
  have a: "getFileContent twoFilesWorld (path (mkDoc ''a.md'')) = longContent"
    and b: "getFileContent twoFilesWorld (path (mkDoc ''b.md'')) = ''Log errors.''"
    by (simp_all add: getFileContent_def twoFilesWorld_def pruningWorld_def failingWorld_def mkDoc_def)
  have short: "filterRelevantContent ''Log errors.'' ''task'' s = Returned ''Log errors.''"
    if "taskCache s = Map.empty" for s
    using that by (simp add: filterRelevantContent_def trim_def isWhiteSpace_def)
  have gen: "generateText twoFilesWorld k prompt = Inr ''# Rules''" for k prompt
    by (simp add: twoFilesWorld_def pruningWorld_def)
  note steps = pipelineAfter_def resume_def limitAdmits_def inFlight_def
    initialUnits_def advance_def a b short gen longContent_awaits newFilterService_def
  from split have "pre = [] \<or> pre = [0] \<or> pre = [0, 0, 1, 1]"
    by (auto simp: Cons_eq_append_conv)
  then show False
  proof (elim disjE)
    assume "pre = []"
    with reading show False by (simp add: steps)
  next
    assume pre: "pre = [0]"
    have "fst (?after [0]) = newFilterService" by (simp add: steps)
    with out pre show False
      by (simp add: outputOf_def a longContent_awaits awaited_def gen newFilterService_def)
  next
    assume "pre = [0, 0, 1, 1]"
    with reading show False by (simp add: steps)
  qed
qed

end
